theory Spec2Isabelle
  imports Main "HOL-Library.AList" "HOL-Library.Multiset"
begin

section \<open>Strings: \<open>normalize\<close>\<close>

text \<open>
  Python strings are modelled as lists of code points below 256 (\<open>char\<close>).
  \<open>isspace\<close> is \<open>str.isspace\<close> on that range and \<open>lower_char\<close> is \<open>str.lower\<close>
  on one such code point.
\<close>

definition isspace :: "char \<Rightarrow> bool" where
  "isspace c =
     (let n = (of_char c :: nat)
      in (9 \<le> n \<and> n \<le> 13) \<or> (28 \<le> n \<and> n \<le> 32) \<or> n = 133 \<or> n = 160)"

definition lower_char :: "char \<Rightarrow> char" where
  "lower_char c =
     (let n = (of_char c :: nat)
      in if (65 \<le> n \<and> n \<le> 90) \<or> (192 \<le> n \<and> n \<le> 222 \<and> n \<noteq> 215)
         then char_of (n + 32) else c)"

definition lower :: "string \<Rightarrow> string" where
  "lower s = map lower_char s"

definition strip :: "string \<Rightarrow> string" where
  "strip s = rev (dropWhile isspace (rev (dropWhile isspace s)))"

text \<open>\<open>str.split()\<close> without a separator: the maximal runs of non-space characters.\<close>

fun split_from :: "string \<Rightarrow> string \<Rightarrow> string list" where
  "split_from cur [] = (if cur = [] then [] else [cur])"
| "split_from cur (c # cs) =
     (if isspace c then (if cur = [] then split_from [] cs else cur # split_from [] cs)
      else split_from (cur @ [c]) cs)"

definition split :: "string \<Rightarrow> string list" where
  "split s = split_from [] s"

text \<open>\<open>" ".join(ws)\<close>\<close>

fun join_space :: "string list \<Rightarrow> string" where
  "join_space [] = []"
| "join_space [w] = w"
| "join_space (w # v # ws) = w @ '' '' @ join_space (v # ws)"


text \<open>\<open>normalize(s) = " ".join((s or "").strip().lower().split())\<close>\<close>

definition normalize :: "string \<Rightarrow> string" where
  "normalize s = join_space (split (lower (strip s)))"

section \<open>Dates\<close>

text \<open>
  A \<open>datetime.date\<close> is its proleptic Gregorian ordinal (\<open>date.toordinal()\<close>), which
  ranges over \<open>1 .. 3652059\<close>. \<open>timedelta(days=n)\<close> raises \<open>OverflowError\<close> when
  \<open>|n| > 999999999\<close>, and date arithmetic raises it when the result leaves the range.
\<close>

type_synonym date = int

datatype graphql_cause =
    Temporary_Shopify_error int
  | Request_exception
  | HTTPError int
  | Body_not_JSON
  | Body_not_object
  | GraphQL_errors

datatype error =
    OverflowError
  | Shopify_GraphQL_failed_after_retries "graphql_cause option"

definition MAXORDINAL :: int where
  "MAXORDINAL = 3652059"

definition timedelta :: "int \<Rightarrow> error + int" where
  "timedelta n = (if \<bar>n\<bar> > 999999999 then Inl OverflowError else Inr n)"

definition date_shift :: "date \<Rightarrow> int \<Rightarrow> error + date" where
  "date_shift d n = (if 0 < d + n \<and> d + n \<le> MAXORDINAL then Inr (d + n) else Inl OverflowError)"

text \<open>\<open>d + timedelta(days=n)\<close>\<close>

definition date_plus_days :: "date \<Rightarrow> int \<Rightarrow> error + date" where
  "date_plus_days d n = (case timedelta n of Inl e \<Rightarrow> Inl e | Inr k \<Rightarrow> date_shift d k)"

text \<open>\<open>d - timedelta(days=n)\<close>\<close>

definition date_minus_days :: "date \<Rightarrow> int \<Rightarrow> error + date" where
  "date_minus_days d n = (case timedelta n of Inl e \<Rightarrow> Inl e | Inr k \<Rightarrow> date_shift d (- k))"

section \<open>Data model\<close>

record RetailPromoRow =
  id_r :: int
  vendor_r :: string
  collection_id :: "string option"
  entry_type :: string
  start_date :: date
  end_date :: "date option"

record VendorPlan =
  vendor :: string
  collection_ids :: "string list"
  sale_display_start :: "date option"
  sale_display_end :: "date option"
  pi_display_start :: "date option"
  pi_display_end :: "date option"
  sale_real_start :: "date option"
  sale_real_end :: "date option"
  pi_real_start :: "date option"
  pi_real_end :: "date option"

text \<open>\<open>VendorPlan(vendor=v)\<close>: every other field at its default.\<close>

definition new_plan :: "string \<Rightarrow> VendorPlan" where
  "new_plan v = \<lparr> vendor = v, collection_ids = [],
     sale_display_start = None, sale_display_end = None,
     pi_display_start = None, pi_display_end = None,
     sale_real_start = None, sale_real_end = None,
     pi_real_start = None, pi_real_end = None \<rparr>"

section \<open>Window calculator\<close>

text \<open>\<open>row.end_date or row.start_date\<close>: a date is always truthy.\<close>

definition end_or_start :: "RetailPromoRow \<Rightarrow> date" where
  "end_or_start r = (case end_date r of Some e \<Rightarrow> e | None \<Rightarrow> start_date r)"

definition compute_display_window ::
  "RetailPromoRow \<Rightarrow> int \<Rightarrow> int \<Rightarrow> int \<Rightarrow> error + (date \<times> date)" where
  "compute_display_window row x y z =
     (let t = normalize (entry_type row) in
      if t = ''sale'' then
        (case date_minus_days (start_date row) x of
           Inl e \<Rightarrow> Inl e
         | Inr ds \<Rightarrow> Inr (ds, end_or_start row))
      else if t = ''price increase'' then
        (case (case end_date row of
                 Some e \<Rightarrow> Inr e
               | None \<Rightarrow> date_plus_days (start_date row) z) of
           Inl e \<Rightarrow> Inl e
         | Inr end_display \<Rightarrow>
             (case date_minus_days (start_date row) y of
                Inl e \<Rightarrow> Inl e
              | Inr ds \<Rightarrow> Inr (ds, end_display)))
      else Inr (start_date row, start_date row))"

section \<open>Vendor aggregator\<close>

text \<open>\<open>d if cur is None else min(cur, d)\<close> and its \<open>max\<close> twin.\<close>

definition widen_min :: "date option \<Rightarrow> date \<Rightarrow> date option" where
  "widen_min cur d = (case cur of None \<Rightarrow> Some d | Some c \<Rightarrow> Some (min c d))"

definition widen_max :: "date option \<Rightarrow> date \<Rightarrow> date option" where
  "widen_max cur d = (case cur of None \<Rightarrow> Some d | Some c \<Rightarrow> Some (max c d))"

text \<open>
  \<open>if r.collection_id and r.collection_id not in w.collection_ids: append\<close>
\<close>

definition add_collection_id :: "VendorPlan \<Rightarrow> RetailPromoRow \<Rightarrow> VendorPlan" where
  "add_collection_id w r =
     (case collection_id r of
        None \<Rightarrow> w
      | Some c \<Rightarrow>
          if c \<noteq> [] \<and> c \<notin> set (collection_ids w)
          then w\<lparr>collection_ids := collection_ids w @ [c]\<rparr> else w)"

text \<open>The body of the loop of \<open>aggregate_by_vendor\<close>, on the plan \<open>w\<close> of the row's vendor.\<close>

definition fold_row :: "int \<Rightarrow> int \<Rightarrow> int \<Rightarrow> VendorPlan \<Rightarrow> RetailPromoRow \<Rightarrow> error + VendorPlan" where
  "fold_row x y z w0 r =
     (let w = add_collection_id w0 r;
          t = normalize (entry_type r)
      in case compute_display_window r x y z of
           Inl e \<Rightarrow> Inl e
         | Inr (d_start, d_end) \<Rightarrow>
             if t = ''sale'' then
               Inr (w\<lparr> sale_display_start := widen_min (sale_display_start w) d_start,
                       sale_display_end := widen_max (sale_display_end w) d_end,
                       sale_real_start := widen_min (sale_real_start w) (start_date r),
                       sale_real_end := widen_max (sale_real_end w) (end_or_start r) \<rparr>)
             else if t = ''price increase'' then
               Inr (w\<lparr> pi_display_start := widen_min (pi_display_start w) d_start,
                       pi_display_end := widen_max (pi_display_end w) d_end,
                       pi_real_start := widen_min (pi_real_start w) (start_date r),
                       pi_real_end := (case end_date r of
                                         None \<Rightarrow> pi_real_end w
                                       | Some e \<Rightarrow> widen_max (pi_real_end w) e) \<rparr>)
             else Inr w)"

text \<open>\<open>by_vendor.get(v) or VendorPlan(vendor=v)\<close>: a plan object is always truthy.\<close>

definition get_or_new :: "(string \<times> VendorPlan) list \<Rightarrow> string \<Rightarrow> VendorPlan" where
  "get_or_new by_vendor v = (case map_of by_vendor v of Some w \<Rightarrow> w | None \<Rightarrow> new_plan v)"

text \<open>
  The dictionary \<open>by_vendor\<close> keeps insertion order, and assigning to a key that is
  present keeps its place: an association list with \<open>AList.update\<close>.
\<close>

fun aggregate_loop ::
  "int \<Rightarrow> int \<Rightarrow> int \<Rightarrow> (string \<times> VendorPlan) list \<Rightarrow> RetailPromoRow list
     \<Rightarrow> error + (string \<times> VendorPlan) list" where
  "aggregate_loop x y z by_vendor [] = Inr by_vendor"
| "aggregate_loop x y z by_vendor (r # rs) =
     (let v = vendor_r r in
      case fold_row x y z (get_or_new by_vendor v) r of
        Inl e \<Rightarrow> Inl e
      | Inr w \<Rightarrow> aggregate_loop x y z (AList.update v w by_vendor) rs)"

definition aggregate_by_vendor ::
  "RetailPromoRow list \<Rightarrow> int \<Rightarrow> int \<Rightarrow> int \<Rightarrow> error + VendorPlan list" where
  "aggregate_by_vendor rows x y z =
     (case aggregate_loop x y z [] rows of
        Inl e \<Rightarrow> Inl e
      | Inr by_vendor \<Rightarrow> Inr (map snd by_vendor))"

text \<open>
  The same loop seen from one plan: the rows of one vendor folded into its plan in order.
\<close>

fun fold_rows :: "int \<Rightarrow> int \<Rightarrow> int \<Rightarrow> VendorPlan \<Rightarrow> RetailPromoRow list \<Rightarrow> error + VendorPlan" where
  "fold_rows x y z w [] = Inr w"
| "fold_rows x y z w (r # rs) =
     (case fold_row x y z w r of Inl e \<Rightarrow> Inl e | Inr w' \<Rightarrow> fold_rows x y z w' rs)"

section \<open>Reconciler: per-category decision\<close>

text \<open>
  \<open>sale_should_exist\<close> and \<open>pi_should_exist\<close> of \<open>main\<close>:
  \<open>start is not None and end is not None and start <= today <= end\<close>.
\<close>

definition sale_should_exist :: "VendorPlan \<Rightarrow> date \<Rightarrow> bool" where
  "sale_should_exist w today =
     (case sale_display_start w of
        None \<Rightarrow> False
      | Some s \<Rightarrow>
          (case sale_display_end w of
             None \<Rightarrow> False
           | Some e \<Rightarrow> s \<le> today \<and> today \<le> e))"

definition pi_should_exist :: "VendorPlan \<Rightarrow> date \<Rightarrow> bool" where
  "pi_should_exist w today =
     (case pi_display_start w of
        None \<Rightarrow> False
      | Some s \<Rightarrow>
          (case pi_display_end w of
             None \<Rightarrow> False
           | Some e \<Rightarrow> s \<le> today \<and> today \<le> e))"

section \<open>Comparing plans, and the aggregation step in parts\<close>

text \<open>
  Two plans agree on the vendor, on all eight window bounds and on the set of collection
  ids (the order in which the ids were first seen is not compared).
\<close>

definition same_plan :: "VendorPlan \<Rightarrow> VendorPlan \<Rightarrow> bool" where
  "same_plan w w' =
     (vendor w = vendor w' \<and> set (collection_ids w) = set (collection_ids w') \<and>
      sale_display_start w = sale_display_start w' \<and> sale_display_end w = sale_display_end w' \<and>
      pi_display_start w = pi_display_start w' \<and> pi_display_end w = pi_display_end w' \<and>
      sale_real_start w = sale_real_start w' \<and> sale_real_end w = sale_real_end w' \<and>
      pi_real_start w = pi_real_start w' \<and> pi_real_end w = pi_real_end w')"

text \<open>
  The \<open>if t == "sale" ... elif t == "price increase" ...\<close> part of the loop body, given the
  display window \<open>(d_start, d_end)\<close> of the row.
\<close>

definition merge_windows :: "RetailPromoRow \<Rightarrow> date \<times> date \<Rightarrow> VendorPlan \<Rightarrow> VendorPlan" where
  "merge_windows r d w =
     (if normalize (entry_type r) = ''sale'' then
        w\<lparr> sale_display_start := widen_min (sale_display_start w) (fst d),
           sale_display_end := widen_max (sale_display_end w) (snd d),
           sale_real_start := widen_min (sale_real_start w) (start_date r),
           sale_real_end := widen_max (sale_real_end w) (end_or_start r) \<rparr>
      else if normalize (entry_type r) = ''price increase'' then
        w\<lparr> pi_display_start := widen_min (pi_display_start w) (fst d),
           pi_display_end := widen_max (pi_display_end w) (snd d),
           pi_real_start := widen_min (pi_real_start w) (start_date r),
           pi_real_end := (case end_date r of
                             None \<Rightarrow> pi_real_end w
                           | Some e \<Rightarrow> widen_max (pi_real_end w) e) \<rparr>
      else w)"

text \<open>The loop body on a result that may already be an error, and its effect on the bounds alone.\<close>

definition fold_row_on :: "int \<Rightarrow> int \<Rightarrow> int \<Rightarrow> RetailPromoRow \<Rightarrow> error + VendorPlan \<Rightarrow> error + VendorPlan" where
  "fold_row_on x y z r s = (case s of Inl e \<Rightarrow> Inl e | Inr w \<Rightarrow> fold_row x y z w r)"

definition merge_row_on :: "int \<Rightarrow> int \<Rightarrow> int \<Rightarrow> RetailPromoRow \<Rightarrow> error + VendorPlan \<Rightarrow> error + VendorPlan" where
  "merge_row_on x y z r s =
     (case s of
        Inl e \<Rightarrow> Inl e
      | Inr w \<Rightarrow>
          (case compute_display_window r x y z of
             Inl e \<Rightarrow> Inl e
           | Inr d \<Rightarrow> Inr (merge_windows r d w)))"

definition without_ids :: "VendorPlan \<Rightarrow> VendorPlan" where
  "without_ids w = w\<lparr>collection_ids := []\<rparr>"

section \<open>Remote API client: \<open>ShopifyClient.graphql\<close>\<close>

text \<open>
  What one \<open>requests.post\<close> can give: it raises (a transport failure, a timeout), or it
  returns a response with a status code and a body. The body either does not parse as
  JSON (\<open>resp.json()\<close> raises), parses to something that is not an object
  (\<open>data.get\<close> raises), or parses to an object, of which the code reads whether
  \<open>data.get("errors")\<close> is truthy.
\<close>

datatype 'a json_body = Not_JSON | Not_object | Object bool 'a

datatype 'a http_outcome = Raises | Response int "'a json_body"

text \<open>
  The retry loop \<open>for attempt in range(retries)\<close>, with \<open>post attempt\<close> the outcome of the
  request of that attempt, the number of attempts left and \<open>last_err\<close>. The result comes
  with the number of requests made. Every path that does not return \<open>data\<close> goes on with
  the next attempt: the transient statuses by \<open>continue\<close>, and whatever is raised inside
  the \<open>try\<close> (by \<open>requests.post\<close>, \<open>raise_for_status\<close>, \<open>resp.json\<close>, \<open>data.get\<close> and by
  \<open>raise RuntimeError("GraphQL errors")\<close>) through \<open>except Exception\<close>. The sleeps between
  attempts are left out.
\<close>

fun graphql_from ::
  "(nat \<Rightarrow> 'a http_outcome) \<Rightarrow> nat \<Rightarrow> nat \<Rightarrow> graphql_cause option \<Rightarrow> (error + 'a) \<times> nat" where
  "graphql_from post attempt 0 last_err =
     (Inl (Shopify_GraphQL_failed_after_retries last_err), attempt)"
| "graphql_from post attempt (Suc left) last_err =
     (case post attempt of
        Raises \<Rightarrow> graphql_from post (Suc attempt) left (Some Request_exception)
      | Response status_code body \<Rightarrow>
          if status_code \<in> {429, 500, 502, 503, 504} then
            graphql_from post (Suc attempt) left (Some (Temporary_Shopify_error status_code))
          else if 400 \<le> status_code \<and> status_code < 600 then
            graphql_from post (Suc attempt) left (Some (HTTPError status_code))
          else
            (case body of
               Not_JSON \<Rightarrow> graphql_from post (Suc attempt) left (Some Body_not_JSON)
             | Not_object \<Rightarrow> graphql_from post (Suc attempt) left (Some Body_not_object)
             | Object errors data \<Rightarrow>
                 if errors then graphql_from post (Suc attempt) left (Some GraphQL_errors)
                 else (Inr data, Suc attempt)))"

text \<open>\<open>graphql(query, variables, retries)\<close>; \<open>range(retries)\<close> is empty for \<open>retries \<le> 0\<close>.\<close>

definition graphql :: "(nat \<Rightarrow> 'a http_outcome) \<Rightarrow> int \<Rightarrow> (error + 'a) \<times> nat" where
  "graphql post retries = graphql_from post 0 (nat retries) None"

section \<open>Remote API client: the count primitives\<close>









section \<open>Reconciler: the dry run\<close>














section \<open>Sample rows\<close>

text \<open>
  Scenario A of the specification: a Sale from 2024-06-10 (ordinal 739047) to 2024-06-20
  (739057). Scenario B: an open-ended Price Increase from 2024-06-10.
\<close>

definition row_A :: RetailPromoRow where
  "row_A = \<lparr> id_r = 1, vendor_r = ''Acme'', collection_id = Some ''12'',
     entry_type = '' Sale'', start_date = 739047, end_date = Some 739057 \<rparr>"

definition row_A_upper :: RetailPromoRow where
  "row_A_upper = \<lparr> id_r = 2, vendor_r = ''ACME'', collection_id = Some ''12'',
     entry_type = ''SALE'', start_date = 739047, end_date = Some 739057 \<rparr>"

definition row_B :: RetailPromoRow where
  "row_B = \<lparr> id_r = 3, vendor_r = ''Acme'', collection_id = Some ''34'',
     entry_type = ''Price  Increase'', start_date = 739047, end_date = None \<rparr>"

definition row_other :: RetailPromoRow where
  "row_other = \<lparr> id_r = 4, vendor_r = ''Acme'', collection_id = Some ''56'',
     entry_type = ''Clearance'', start_date = 739047, end_date = Some 739057 \<rparr>"

definition plan_AB :: VendorPlan where
  "plan_AB = \<lparr> vendor = ''Acme'', collection_ids = [''12'', ''34''],
     sale_display_start = Some 739042, sale_display_end = Some 739057,
     pi_display_start = Some 739032, pi_display_end = Some 739052,
     sale_real_start = Some 739047, sale_real_end = Some 739057,
     pi_real_start = Some 739047, pi_real_end = None \<rparr>"

definition plan_A :: VendorPlan where
  "plan_A = \<lparr> vendor = ''Acme'', collection_ids = [''12''],
     sale_display_start = Some 739042, sale_display_end = Some 739057,
     pi_display_start = None, pi_display_end = None,
     sale_real_start = Some 739047, sale_real_end = Some 739057,
     pi_real_start = None, pi_real_end = None \<rparr>"

definition plan_other :: VendorPlan where
  "plan_other = \<lparr> vendor = ''Acme'', collection_ids = [''56''],
     sale_display_start = None, sale_display_end = None,
     pi_display_start = None, pi_display_end = None,
     sale_real_start = None, sale_real_end = None,
     pi_real_start = None, pi_real_end = None \<rparr>"

definition plan_BA :: VendorPlan where
  "plan_BA = \<lparr> vendor = ''Acme'', collection_ids = [''34'', ''12''],
     sale_display_start = Some 739042, sale_display_end = Some 739057,
     pi_display_start = Some 739032, pi_display_end = Some 739052,
     sale_real_start = Some 739047, sale_real_end = Some 739057,
     pi_real_start = Some 739047, pi_real_end = None \<rparr>"

text \<open>A dated Price Increase of the same vendor, ending 2024-05-31 (739037).\<close>

definition row_B_dated :: RetailPromoRow where
  "row_B_dated = \<lparr> id_r = 5, vendor_r = ''Acme'', collection_id = None,
     entry_type = ''price increase'', start_date = 739030, end_date = Some 739037 \<rparr>"

definition plan_B_mixed :: VendorPlan where
  "plan_B_mixed = \<lparr> vendor = ''Acme'', collection_ids = [''34''],
     sale_display_start = None, sale_display_end = None,
     pi_display_start = Some 739015, pi_display_end = Some 739052,
     sale_real_start = None, sale_real_end = None,
     pi_real_start = Some 739030, pi_real_end = Some 739037 \<rparr>"

text \<open>A Price Increase under the upper-case spelling of the same vendor name.\<close>

definition row_B_upper :: RetailPromoRow where
  "row_B_upper = \<lparr> id_r = 6, vendor_r = ''ACME'', collection_id = None,
     entry_type = ''Price Increase'', start_date = 739047, end_date = None \<rparr>"

definition plan_A_only :: VendorPlan where
  "plan_A_only = \<lparr> vendor = ''Acme'', collection_ids = [''12''],
     sale_display_start = Some 739042, sale_display_end = Some 739057,
     pi_display_start = None, pi_display_end = None,
     sale_real_start = Some 739047, sale_real_end = Some 739057,
     pi_real_start = None, pi_real_end = None \<rparr>"

definition plan_B_upper :: VendorPlan where
  "plan_B_upper = \<lparr> vendor = ''ACME'', collection_ids = [],
     sale_display_start = None, sale_display_end = None,
     pi_display_start = Some 739032, pi_display_end = Some 739052,
     sale_real_start = None, sale_real_end = None,
     pi_real_start = Some 739047, pi_real_end = None \<rparr>"

section \<open>Sample responses\<close>

text \<open>
  A shop whose first answer carries a GraphQL \<open>errors\<close> payload and whose later answers are
  clean; a shop that always answers with an \<open>errors\<close> payload; a shop whose every request
  fails in transport.
\<close>

definition post_errors_then_ok :: "nat \<Rightarrow> string http_outcome" where
  "post_errors_then_ok n =
     (if n = 0 then Response 200 (Object True ''first'') else Response 200 (Object False ''second''))"

definition post_always_errors :: "nat \<Rightarrow> string http_outcome" where
  "post_always_errors n = Response 200 (Object True ''payload'')"

definition post_always_raises :: "nat \<Rightarrow> string http_outcome" where
  "post_always_raises n = Raises"



section \<open>Structure of the aggregation\<close>

lemma get_or_new_update:
  "get_or_new (AList.update k w bv) v = (if v = k then w else get_or_new bv v)"
  by (simp add: get_or_new_def update_conv')

lemma get_or_new_Nil: "get_or_new [] v = new_plan v"
  by (simp add: get_or_new_def)

lemma aggregate_loop_get:
  "aggregate_loop x y z bv rows = Inr bv' \<Longrightarrow>
   fold_rows x y z (get_or_new bv v) (filter (\<lambda>r. vendor_r r = v) rows) = Inr (get_or_new bv' v)"
proof (induction rows arbitrary: bv)
  case Nil
  then show ?case by simp
next
  case (Cons r rs)
  from Cons.prems obtain w where
    w: "fold_row x y z (get_or_new bv (vendor_r r)) r = Inr w"
    and rest: "aggregate_loop x y z (AList.update (vendor_r r) w bv) rs = Inr bv'"
    by (auto simp: Let_def split: sum.splits)
  from Cons.IH [OF rest]
  have ih: "fold_rows x y z (get_or_new (AList.update (vendor_r r) w bv) v)
              (filter (\<lambda>r. vendor_r r = v) rs) = Inr (get_or_new bv' v)" .
  show ?case
  proof (cases "vendor_r r = v")
    case True
    with w ih show ?thesis by (simp add: get_or_new_update)
  next
    case False
    with ih show ?thesis by (auto simp add: get_or_new_update)
  qed
qed

lemma aggregate_loop_keys:
  "aggregate_loop x y z bv rows = Inr bv' \<Longrightarrow>
   set (map fst bv') = set (map fst bv) \<union> vendor_r ` set rows \<and>
   (distinct (map fst bv) \<longrightarrow> distinct (map fst bv'))"
proof (induction rows arbitrary: bv)
  case Nil
  then show ?case by simp
next
  case (Cons r rs)
  from Cons.prems obtain w where
    rest: "aggregate_loop x y z (AList.update (vendor_r r) w bv) rs = Inr bv'"
    by (auto simp: Let_def split: sum.splits)
  from Cons.IH [OF rest] show ?case
    by (auto simp: update_keys distinct_update split: if_splits)
qed

lemma fold_row_vendor: "fold_row x y z w r = Inr w' \<Longrightarrow> vendor w' = vendor w"
  by (auto simp: fold_row_def add_collection_id_def Let_def
      split: sum.splits option.splits if_splits prod.splits)

lemma fold_rows_vendor: "fold_rows x y z w rs = Inr w' \<Longrightarrow> vendor w' = vendor w"
  by (induction rs arbitrary: w) (auto split: sum.splits dest: fold_row_vendor)

lemma aggregate_plans:
  assumes "aggregate_by_vendor rows x y z = Inr plans"
  shows "distinct (map vendor plans)"
    and "set (map vendor plans) = vendor_r ` set rows"
    and "w \<in> set plans \<Longrightarrow>
         fold_rows x y z (new_plan (vendor w)) (filter (\<lambda>r. vendor_r r = vendor w) rows) = Inr w"
proof -
  from assms obtain bv where
    loop: "aggregate_loop x y z [] rows = Inr bv" and plans: "plans = map snd bv"
    by (auto simp: aggregate_by_vendor_def split: sum.splits)
  from aggregate_loop_keys [OF loop]
  have keys: "set (map fst bv) = vendor_r ` set rows" and dist: "distinct (map fst bv)"
    by simp_all
  have entry: "fold_rows x y z (new_plan k) (filter (\<lambda>r. vendor_r r = k) rows) = Inr p \<and> vendor p = k"
    if "(k, p) \<in> set bv" for k p
  proof -
    from that dist have "map_of bv k = Some p" by simp
    then have "get_or_new bv k = p" by (simp add: get_or_new_def)
    with aggregate_loop_get [OF loop, of k]
    have f: "fold_rows x y z (new_plan k) (filter (\<lambda>r. vendor_r r = k) rows) = Inr p"
      by (simp add: get_or_new_Nil)
    from fold_rows_vendor [OF f] have "vendor p = k" by (simp add: new_plan_def)
    with f show ?thesis by simp
  qed
  then have same: "map vendor plans = map fst bv"
    unfolding plans by (auto simp: comp_def)
  from dist same show "distinct (map vendor plans)" by simp
  from keys same show "set (map vendor plans) = vendor_r ` set rows" by simp
  show "fold_rows x y z (new_plan (vendor w)) (filter (\<lambda>r. vendor_r r = vendor w) rows) = Inr w"
    if "w \<in> set plans"
  proof -
    from that plans obtain k where "(k, w) \<in> set bv" by auto
    from entry [OF this] show ?thesis by auto
  qed
qed

section \<open>Window calculator: Sale rows\<close>

text \<open>
  C4. For a row whose entry type normalizes to \<open>sale\<close> and offset \<open>x\<close>, the display window
  is \<open>(start - x, end if present else start)\<close> whenever \<open>start - x\<close> is a date (otherwise
  the date arithmetic raises \<open>OverflowError\<close>), and the real end merged into the vendor
  plan is \<open>end if present else start\<close>: it becomes the plan's real end when the plan had
  none, else the later of the two.
\<close>

theorem sale_window_and_real_end:
  assumes "normalize (entry_type r) = ''sale''"
  shows "compute_display_window r x y z =
           (if \<bar>x\<bar> \<le> 999999999 \<and> 0 < start_date r - x \<and> start_date r - x \<le> MAXORDINAL
            then Inr (start_date r - x, (case end_date r of Some e \<Rightarrow> e | None \<Rightarrow> start_date r))
            else Inl OverflowError)
         \<and> (\<bar>x\<bar> \<le> 999999999 \<and> 0 < start_date r - x \<and> start_date r - x \<le> MAXORDINAL \<longrightarrow>
              (\<exists>w'. fold_row x y z w r = Inr w' \<and>
                 sale_real_end w' =
                   (case sale_real_end w of
                      None \<Rightarrow> Some (case end_date r of Some e \<Rightarrow> e | None \<Rightarrow> start_date r)
                    | Some c \<Rightarrow> Some (max c (case end_date r of Some e \<Rightarrow> e | None \<Rightarrow> start_date r)))))"
  using assms
  by (auto simp: compute_display_window_def fold_row_def add_collection_id_def widen_max_def
      date_minus_days_def timedelta_def date_shift_def end_or_start_def Let_def
      split: option.splits)

theorem sale_window_and_real_end_witness:
  "normalize (entry_type row_A) = ''sale'' \<and>
   compute_display_window row_A 5 15 5 = Inr (739042, 739057) \<and>
   (\<exists>w'. fold_row 5 15 5 (new_plan ''Acme'') row_A = Inr w' \<and> sale_real_end w' = Some 739057)"
proof -
  have h: "normalize (entry_type row_A) = ''sale''" by code_simp
  from sale_window_and_real_end [where r = row_A and x = 5 and y = 15 and z = 5
      and w = "new_plan ''Acme''", OF h] h
  show ?thesis by (simp add: row_A_def MAXORDINAL_def new_plan_def)
qed

section \<open>Vendor identity in the aggregation\<close>

text \<open>
  What the aggregation does with vendor names: it keys plans by the vendor string exactly
  as the row carries it. The plans have pairwise different vendor strings, one for each
  vendor string among the rows, and each plan is the fold, from a fresh plan of that name,
  of exactly the rows whose vendor string equals the plan's character for character.
\<close>

lemma aggregate_keys_exact_vendor:
  assumes "aggregate_by_vendor rows x y z = Inr plans"
  shows "distinct (map vendor plans) \<and> set (map vendor plans) = vendor_r ` set rows \<and>
         (\<forall>w \<in> set plans.
            fold_rows x y z (new_plan (vendor w)) (filter (\<lambda>r. vendor_r r = vendor w) rows) = Inr w)"
  using aggregate_plans [OF assms] by blast

text \<open>
  C2 says that rows whose vendor names differ only in letter case are folded into one
  plan. The code does not do that: a Sale row of vendor \<open>Acme\<close> and a Price Increase row of
  vendor \<open>ACME\<close> have the same normalized vendor name, the one that
  \<open>list_product_ids_by_vendor\<close> compares products by, and the aggregation still returns two
  plans, one with only the Sale window and one with only the Price Increase window. On
  2024-06-06 (739043) the first plan is SHOULD_NOT_EXIST for Price Increase and the second
  for Sale, so each plan schedules the deletion of the keys the other one writes.
\<close>

theorem vendor_case_two_plans:
  "normalize (vendor_r row_A) = normalize (vendor_r row_B_upper) \<and>
   aggregate_by_vendor [row_A, row_B_upper] 5 15 5 = Inr [plan_A_only, plan_B_upper] \<and>
   sale_should_exist plan_A_only 739043 \<and> \<not> pi_should_exist plan_A_only 739043 \<and>
   \<not> sale_should_exist plan_B_upper 739043 \<and> pi_should_exist plan_B_upper 739043"
  by code_simp

section \<open>Rows of another category leave a category alone\<close>

lemma fold_row_error:
  "fold_row x y z w r = Inl e \<longleftrightarrow> compute_display_window r x y z = Inl e"
  by (auto simp: fold_row_def Let_def split: sum.splits prod.splits)

lemma aggregate_loop_total:
  "(\<forall>r \<in> set rows. \<exists>d. compute_display_window r x y z = Inr d) \<Longrightarrow>
   \<exists>bv'. aggregate_loop x y z bv rows = Inr bv'"
proof (induction rows arbitrary: bv)
  case Nil
  then show ?case by simp
next
  case (Cons r rs)
  then obtain d where "compute_display_window r x y z = Inr d" by auto
  then obtain w where "fold_row x y z (get_or_new bv (vendor_r r)) r = Inr w"
    by (cases "fold_row x y z (get_or_new bv (vendor_r r)) r") (auto simp: fold_row_error)
  with Cons show ?case by (auto simp: Let_def)
qed

lemma fold_row_not_sale:
  "fold_row x y z w r = Inr w' \<Longrightarrow> normalize (entry_type r) \<noteq> ''sale'' \<Longrightarrow>
   sale_display_start w' = sale_display_start w \<and> sale_display_end w' = sale_display_end w \<and>
   sale_real_start w' = sale_real_start w \<and> sale_real_end w' = sale_real_end w"
  by (auto simp: fold_row_def add_collection_id_def Let_def
      split: sum.splits option.splits if_splits prod.splits)

lemma fold_row_not_pi:
  "fold_row x y z w r = Inr w' \<Longrightarrow> normalize (entry_type r) \<noteq> ''price increase'' \<Longrightarrow>
   pi_display_start w' = pi_display_start w \<and> pi_display_end w' = pi_display_end w \<and>
   pi_real_start w' = pi_real_start w \<and> pi_real_end w' = pi_real_end w"
  by (auto simp: fold_row_def add_collection_id_def Let_def
      split: sum.splits option.splits if_splits prod.splits)

lemma fold_rows_not_sale:
  "fold_rows x y z w rs = Inr w' \<Longrightarrow> \<forall>r \<in> set rs. normalize (entry_type r) \<noteq> ''sale'' \<Longrightarrow>
   sale_display_start w' = sale_display_start w \<and> sale_display_end w' = sale_display_end w \<and>
   sale_real_start w' = sale_real_start w \<and> sale_real_end w' = sale_real_end w"
proof (induction rs arbitrary: w)
  case Nil
  then show ?case by simp
next
  case (Cons r rs)
  from Cons.prems obtain w1 where
    s: "fold_row x y z w r = Inr w1" and f: "fold_rows x y z w1 rs = Inr w'"
    by (auto split: sum.splits)
  from fold_row_not_sale [OF s] Cons.IH [OF f] Cons.prems(2) show ?case by simp
qed

lemma fold_rows_not_pi:
  "fold_rows x y z w rs = Inr w' \<Longrightarrow> \<forall>r \<in> set rs. normalize (entry_type r) \<noteq> ''price increase'' \<Longrightarrow>
   pi_display_start w' = pi_display_start w \<and> pi_display_end w' = pi_display_end w \<and>
   pi_real_start w' = pi_real_start w \<and> pi_real_end w' = pi_real_end w"
proof (induction rs arbitrary: w)
  case Nil
  then show ?case by simp
next
  case (Cons r rs)
  from Cons.prems obtain w1 where
    s: "fold_row x y z w r = Inr w1" and f: "fold_rows x y z w1 rs = Inr w'"
    by (auto split: sum.splits)
  from fold_row_not_pi [OF s] Cons.IH [OF f] Cons.prems(2) show ?case by simp
qed

lemma no_sale_rows_no_sale:
  assumes "aggregate_by_vendor rows x y z = Inr plans" and "w \<in> set plans"
    and "\<forall>r \<in> set rows. vendor_r r = vendor w \<longrightarrow> normalize (entry_type r) \<noteq> ''sale''"
  shows "sale_display_start w = None \<and> sale_display_end w = None \<and>
         sale_real_start w = None \<and> sale_real_end w = None"
proof -
  from aggregate_plans(3) [OF assms(1,2)]
  have f: "fold_rows x y z (new_plan (vendor w)) (filter (\<lambda>r. vendor_r r = vendor w) rows) = Inr w" .
  from fold_rows_not_sale [OF f] assms(3) show ?thesis by (simp add: new_plan_def)
qed

lemma no_pi_rows_no_pi:
  assumes "aggregate_by_vendor rows x y z = Inr plans" and "w \<in> set plans"
    and "\<forall>r \<in> set rows. vendor_r r = vendor w \<longrightarrow> normalize (entry_type r) \<noteq> ''price increase''"
  shows "pi_display_start w = None \<and> pi_display_end w = None \<and>
         pi_real_start w = None \<and> pi_real_end w = None"
proof -
  from aggregate_plans(3) [OF assms(1,2)]
  have f: "fold_rows x y z (new_plan (vendor w)) (filter (\<lambda>r. vendor_r r = vendor w) rows) = Inr w" .
  from fold_rows_not_pi [OF f] assms(3) show ?thesis by (simp add: new_plan_def)
qed

section \<open>Reconciler decision\<close>

text \<open>
  C6. For each category the decision is SHOULD_EXIST exactly when both display bounds
  of the plan are present and \<open>displayStart \<le> today \<le> displayEnd\<close>; a plan produced by
  the aggregation whose vendor has no row of a category has null bounds for it and is
  SHOULD_NOT_EXIST for it on every day.
\<close>

theorem should_exist_iff_in_display_window:
  "(sale_should_exist w today \<longleftrightarrow>
      (\<exists>s e. sale_display_start w = Some s \<and> sale_display_end w = Some e \<and> s \<le> today \<and> today \<le> e))
   \<and> (pi_should_exist w today \<longleftrightarrow>
      (\<exists>s e. pi_display_start w = Some s \<and> pi_display_end w = Some e \<and> s \<le> today \<and> today \<le> e))
   \<and> (\<forall>rows x y z plans.
        aggregate_by_vendor rows x y z = Inr plans \<and> w \<in> set plans \<and>
        (\<forall>r \<in> set rows. vendor_r r = vendor w \<longrightarrow> normalize (entry_type r) \<noteq> ''sale'')
        \<longrightarrow> \<not> sale_should_exist w today)
   \<and> (\<forall>rows x y z plans.
        aggregate_by_vendor rows x y z = Inr plans \<and> w \<in> set plans \<and>
        (\<forall>r \<in> set rows. vendor_r r = vendor w \<longrightarrow> normalize (entry_type r) \<noteq> ''price increase'')
        \<longrightarrow> \<not> pi_should_exist w today)"
proof -
  have a: "sale_should_exist w today \<longleftrightarrow>
      (\<exists>s e. sale_display_start w = Some s \<and> sale_display_end w = Some e \<and> s \<le> today \<and> today \<le> e)"
    by (auto simp: sale_should_exist_def split: option.splits)
  have b: "pi_should_exist w today \<longleftrightarrow>
      (\<exists>s e. pi_display_start w = Some s \<and> pi_display_end w = Some e \<and> s \<le> today \<and> today \<le> e)"
    by (auto simp: pi_should_exist_def split: option.splits)
  have c: "\<not> sale_should_exist w today"
    if "aggregate_by_vendor rows x y z = Inr plans" "w \<in> set plans"
      "\<forall>r \<in> set rows. vendor_r r = vendor w \<longrightarrow> normalize (entry_type r) \<noteq> ''sale''"
    for rows x y z plans
    using no_sale_rows_no_sale [OF that] by (simp add: sale_should_exist_def)
  have d: "\<not> pi_should_exist w today"
    if "aggregate_by_vendor rows x y z = Inr plans" "w \<in> set plans"
      "\<forall>r \<in> set rows. vendor_r r = vendor w \<longrightarrow> normalize (entry_type r) \<noteq> ''price increase''"
    for rows x y z plans
    using no_pi_rows_no_pi [OF that] by (simp add: pi_should_exist_def)
  from a b c d show ?thesis by blast
qed

theorem should_exist_iff_in_display_window_witness:
  "sale_should_exist plan_A 739043 \<and>
   sale_display_start plan_A = Some 739042 \<and> sale_display_end plan_A = Some 739057 \<and>
   aggregate_by_vendor [row_A] 5 15 5 = Inr [plan_A] \<and>
   normalize (entry_type row_A) \<noteq> ''price increase'' \<and>
   \<not> pi_should_exist plan_A 739043"
proof -
  have h: "aggregate_by_vendor [row_A] 5 15 5 = Inr [plan_A]" by code_simp
  have n: "normalize (entry_type row_A) \<noteq> ''price increase''" by code_simp
  have s: "sale_display_start plan_A = Some 739042 \<and> sale_display_end plan_A = Some 739057"
    by (simp add: plan_A_def)
  note t = should_exist_iff_in_display_window [of plan_A 739043]
  from t have a: "sale_should_exist plan_A 739043 \<longleftrightarrow>
      (\<exists>s e. sale_display_start plan_A = Some s \<and> sale_display_end plan_A = Some e \<and>
         s \<le> 739043 \<and> 739043 \<le> e)"
    by (rule conjunct1)
  from s have "\<exists>s e. sale_display_start plan_A = Some s \<and> sale_display_end plan_A = Some e \<and>
         s \<le> 739043 \<and> 739043 \<le> e" by simp
  with a have sale: "sale_should_exist plan_A 739043" by (rule iffD2)
  from t have d: "\<forall>rows x y z plans.
        aggregate_by_vendor rows x y z = Inr plans \<and> plan_A \<in> set plans \<and>
        (\<forall>r \<in> set rows. vendor_r r = vendor plan_A \<longrightarrow>
           normalize (entry_type r) \<noteq> ''price increase'')
        \<longrightarrow> \<not> pi_should_exist plan_A 739043"
    by (elim conjE)
  from h n have pre: "aggregate_by_vendor [row_A] 5 15 5 = Inr [plan_A] \<and> plan_A \<in> set [plan_A] \<and>
        (\<forall>r \<in> set [row_A]. vendor_r r = vendor plan_A \<longrightarrow>
           normalize (entry_type r) \<noteq> ''price increase'')"
    by simp
  from d [rule_format, OF pre] have pi: "\<not> pi_should_exist plan_A 739043" .
  from sale s h n pi show ?thesis by (intro conjI) simp_all
qed

section \<open>Rows of an unknown entry type\<close>

lemma window_other:
  "normalize (entry_type r) \<noteq> ''sale'' \<Longrightarrow> normalize (entry_type r) \<noteq> ''price increase'' \<Longrightarrow>
   compute_display_window r x y z = Inr (start_date r, start_date r)"
  by (simp add: compute_display_window_def)

lemma fold_row_other:
  "normalize (entry_type r) \<noteq> ''sale'' \<Longrightarrow> normalize (entry_type r) \<noteq> ''price increase'' \<Longrightarrow>
   fold_row x y z w r = Inr (add_collection_id w r)"
  by (simp add: fold_row_def window_other)

text \<open>
  C10. A row whose normalized entry type is neither \<open>sale\<close> nor \<open>price increase\<close> gets the
  degenerate window \<open>(start, start)\<close> from the window calculator, and folding it into a
  plan appends its collection id when that is non-empty and new and changes nothing else:
  the eight window fields stay as they were. The aggregation of rows that are all of this
  kind succeeds, and none of its plans is SHOULD_EXIST for either category on any day.
\<close>

theorem other_entry_type_rows:
  "(normalize (entry_type r) \<noteq> ''sale'' \<and> normalize (entry_type r) \<noteq> ''price increase'' \<longrightarrow>
      compute_display_window r x y z = Inr (start_date r, start_date r) \<and>
      fold_row x y z w r =
        Inr (w\<lparr>collection_ids :=
               (case collection_id r of
                  None \<Rightarrow> collection_ids w
                | Some c \<Rightarrow> if c \<noteq> [] \<and> c \<notin> set (collection_ids w)
                            then collection_ids w @ [c] else collection_ids w)\<rparr>))
   \<and> ((\<forall>r' \<in> set rows. normalize (entry_type r') \<noteq> ''sale'' \<and>
                         normalize (entry_type r') \<noteq> ''price increase'') \<longrightarrow>
       (\<exists>plans. aggregate_by_vendor rows x y z = Inr plans \<and>
          (\<forall>p \<in> set plans. \<forall>today. \<not> sale_should_exist p today \<and> \<not> pi_should_exist p today)))"
proof -
  have one: "compute_display_window r x y z = Inr (start_date r, start_date r) \<and>
      fold_row x y z w r =
        Inr (w\<lparr>collection_ids :=
               (case collection_id r of
                  None \<Rightarrow> collection_ids w
                | Some c \<Rightarrow> if c \<noteq> [] \<and> c \<notin> set (collection_ids w)
                            then collection_ids w @ [c] else collection_ids w)\<rparr>)"
    if "normalize (entry_type r) \<noteq> ''sale''" "normalize (entry_type r) \<noteq> ''price increase''"
    using that by (simp add: window_other fold_row_other add_collection_id_def split: option.splits)
  have many: "\<exists>plans. aggregate_by_vendor rows x y z = Inr plans \<and>
          (\<forall>p \<in> set plans. \<forall>today. \<not> sale_should_exist p today \<and> \<not> pi_should_exist p today)"
    if other: "\<forall>r' \<in> set rows. normalize (entry_type r') \<noteq> ''sale'' \<and>
                         normalize (entry_type r') \<noteq> ''price increase''"
  proof -
    from other have "\<forall>r' \<in> set rows. \<exists>d. compute_display_window r' x y z = Inr d"
      by (simp add: window_other)
    from aggregate_loop_total [OF this, of "[]"] obtain plans where
      p: "aggregate_by_vendor rows x y z = Inr plans"
      by (auto simp: aggregate_by_vendor_def)
    have "\<not> sale_should_exist q today \<and> \<not> pi_should_exist q today" if "q \<in> set plans" for q today
      using no_sale_rows_no_sale [OF p that] no_pi_rows_no_pi [OF p that] other
      by (simp add: sale_should_exist_def pi_should_exist_def)
    with p show ?thesis by blast
  qed
  from one many show ?thesis by blast
qed

theorem other_entry_type_rows_witness:
  "normalize (entry_type row_other) \<noteq> ''sale'' \<and>
   normalize (entry_type row_other) \<noteq> ''price increase'' \<and>
   compute_display_window row_other 5 15 5 = Inr (739047, 739047) \<and>
   fold_row 5 15 5 (new_plan ''Acme'') row_other = Inr plan_other \<and>
   aggregate_by_vendor [row_other] 5 15 5 = Inr [plan_other] \<and>
   \<not> sale_should_exist plan_other 739047 \<and> \<not> pi_should_exist plan_other 739047"
proof -
  have n: "normalize (entry_type row_other) \<noteq> ''sale'' \<and>
           normalize (entry_type row_other) \<noteq> ''price increase''" by code_simp
  have h: "aggregate_by_vendor [row_other] 5 15 5 = Inr [plan_other]" by code_simp
  note t = other_entry_type_rows [where r = row_other and x = 5 and y = 15 and z = 5
      and w = "new_plan ''Acme''" and rows = "[row_other]"]
  from t [THEN conjunct1, THEN mp, OF n]
  have a: "compute_display_window row_other 5 15 5 = Inr (739047, 739047)"
    and b: "fold_row 5 15 5 (new_plan ''Acme'') row_other = Inr plan_other"
    by (simp_all add: row_other_def new_plan_def plan_other_def)
  from n have all: "\<forall>r' \<in> set [row_other]. normalize (entry_type r') \<noteq> ''sale'' \<and>
      normalize (entry_type r') \<noteq> ''price increase''" by simp
  from t [THEN conjunct2, THEN mp, OF all] h
  have c: "\<not> sale_should_exist plan_other 739047 \<and> \<not> pi_should_exist plan_other 739047"
    by simp
  from n a b h c show ?thesis by (intro conjI) simp_all
qed

section \<open>Price Increase: real end and display end\<close>

lemma widen_max_Some: "\<exists>e. widen_max cur d = Some e \<and> d \<le> e \<and> (\<forall>c. cur = Some c \<longrightarrow> c \<le> e)"
  by (cases cur) (auto simp: widen_max_def)

lemma window_pi:
  "normalize (entry_type r) = ''price increase'' \<Longrightarrow> compute_display_window r x y z = Inr d \<Longrightarrow>
   d = (start_date r - y, (case end_date r of Some e \<Rightarrow> e | None \<Rightarrow> start_date r + z))"
  by (auto simp: compute_display_window_def date_minus_days_def date_plus_days_def timedelta_def
      date_shift_def split: option.splits if_splits sum.splits)

lemma fold_row_window:
  "fold_row x y z w r = Inr w' \<Longrightarrow> \<exists>d. compute_display_window r x y z = Inr d"
  by (cases "compute_display_window r x y z") (auto simp: fold_row_def Let_def)

lemma fold_row_pi:
  assumes "normalize (entry_type r) = ''price increase''" and "fold_row x y z w r = Inr w'"
  shows "pi_real_end w' =
           (case end_date r of None \<Rightarrow> pi_real_end w | Some e \<Rightarrow> widen_max (pi_real_end w) e)"
    and "pi_display_end w' =
           widen_max (pi_display_end w)
             (case end_date r of Some e \<Rightarrow> e | None \<Rightarrow> start_date r + z)"
proof -
  from fold_row_window [OF assms(2)] obtain d where d: "compute_display_window r x y z = Inr d"
    by blast
  from window_pi [OF assms(1) d]
  have d': "d = (start_date r - y, (case end_date r of Some e \<Rightarrow> e | None \<Rightarrow> start_date r + z))" .
  from assms d d' show "pi_real_end w' =
           (case end_date r of None \<Rightarrow> pi_real_end w | Some e \<Rightarrow> widen_max (pi_real_end w) e)"
    by (auto simp: fold_row_def add_collection_id_def Let_def split: option.splits if_splits)
  from assms d d' show "pi_display_end w' =
           widen_max (pi_display_end w)
             (case end_date r of Some e \<Rightarrow> e | None \<Rightarrow> start_date r + z)"
    by (auto simp: fold_row_def add_collection_id_def Let_def split: option.splits if_splits)
qed

lemma fold_rows_pi_real_end:
  "fold_rows x y z w rs = Inr w' \<Longrightarrow>
   (pi_real_end w' = None \<longleftrightarrow>
      pi_real_end w = None \<and>
      (\<forall>r \<in> set rs. normalize (entry_type r) = ''price increase'' \<longrightarrow> end_date r = None))"
proof (induction rs arbitrary: w)
  case Nil
  then show ?case by simp
next
  case (Cons r rs)
  from Cons.prems obtain w1 where
    s: "fold_row x y z w r = Inr w1" and f: "fold_rows x y z w1 rs = Inr w'"
    by (auto split: sum.splits)
  have step: "pi_real_end w1 = None \<longleftrightarrow>
      pi_real_end w = None \<and> (normalize (entry_type r) = ''price increase'' \<longrightarrow> end_date r = None)"
  proof (cases "normalize (entry_type r) = ''price increase''")
    case True
    from fold_row_pi(1) [OF True s] widen_max_Some show ?thesis
      using True by (cases "end_date r") (auto simp: widen_max_def split: option.splits)
  next
    case False
    with fold_row_not_pi [OF s] show ?thesis by simp
  qed
  from Cons.IH [OF f] step show ?case by auto
qed

lemma fold_rows_pi_display_end_mono:
  "fold_rows x y z w rs = Inr w' \<Longrightarrow> pi_display_end w = Some e0 \<Longrightarrow>
   \<exists>e. pi_display_end w' = Some e \<and> e0 \<le> e"
proof (induction rs arbitrary: w e0)
  case Nil
  then show ?case by simp
next
  case (Cons r rs)
  from Cons.prems obtain w1 where
    s: "fold_row x y z w r = Inr w1" and f: "fold_rows x y z w1 rs = Inr w'"
    by (auto split: sum.splits)
  have "\<exists>e1. pi_display_end w1 = Some e1 \<and> e0 \<le> e1"
  proof (cases "normalize (entry_type r) = ''price increase''")
    case True
    from fold_row_pi(2) [OF True s] Cons.prems(2) show ?thesis
      by (simp add: widen_max_def)
  next
    case False
    with fold_row_not_pi [OF s] Cons.prems(2) show ?thesis by simp
  qed
  then obtain e1 where e1: "pi_display_end w1 = Some e1" "e0 \<le> e1" by blast
  from Cons.IH [OF f e1(1)] e1(2) show ?case by fastforce
qed

lemma fold_rows_pi_display_end:
  "fold_rows x y z w rs = Inr w' \<Longrightarrow> r \<in> set rs \<Longrightarrow>
   normalize (entry_type r) = ''price increase'' \<Longrightarrow>
   \<exists>e. pi_display_end w' = Some e \<and>
       (case end_date r of Some d \<Rightarrow> d | None \<Rightarrow> start_date r + z) \<le> e"
proof (induction rs arbitrary: w)
  case Nil
  then show ?case by simp
next
  case (Cons q rs)
  from Cons.prems(1) obtain w1 where
    s: "fold_row x y z w q = Inr w1" and f: "fold_rows x y z w1 rs = Inr w'"
    by (auto split: sum.splits)
  show ?case
  proof (cases "r = q")
    case True
    from fold_row_pi(2) [OF _ s] Cons.prems(3) True widen_max_Some
    obtain e1 where e1: "pi_display_end w1 = Some e1"
      "(case end_date r of Some d \<Rightarrow> d | None \<Rightarrow> start_date r + z) \<le> e1"
      by metis
    from fold_rows_pi_display_end_mono [OF f e1(1)] e1(2) show ?thesis by fastforce
  next
    case False
    with Cons.prems(2) have "r \<in> set rs" by simp
    from Cons.IH [OF f this Cons.prems(3)] show ?thesis .
  qed
qed

lemma fold_rows_window:
  "fold_rows x y z w rs = Inr w' \<Longrightarrow> r \<in> set rs \<Longrightarrow> \<exists>d. compute_display_window r x y z = Inr d"
proof (induction rs arbitrary: w)
  case Nil
  then show ?case by simp
next
  case (Cons q rs)
  from Cons.prems(1) obtain w1 where
    s: "fold_row x y z w q = Inr w1" and f: "fold_rows x y z w1 rs = Inr w'"
    by (auto split: sum.splits)
  from Cons.prems(2) fold_row_window [OF s] Cons.IH [OF f] show ?case by auto
qed

lemma fold_rows_pi_real_end_value:
  "fold_rows x y z w rs = Inr w' \<Longrightarrow> pi_real_end w' = Some e \<Longrightarrow>
   pi_real_end w = Some e \<or>
   (\<exists>r \<in> set rs. normalize (entry_type r) = ''price increase'' \<and> end_date r = Some e)"
proof (induction rs arbitrary: w)
  case Nil
  then show ?case by simp
next
  case (Cons r rs)
  from Cons.prems(1) obtain w1 where
    s: "fold_row x y z w r = Inr w1" and f: "fold_rows x y z w1 rs = Inr w'"
    by (auto split: sum.splits)
  have step: "pi_real_end w1 = Some e \<Longrightarrow>
      pi_real_end w = Some e \<or>
      (normalize (entry_type r) = ''price increase'' \<and> end_date r = Some e)"
  proof (cases "normalize (entry_type r) = ''price increase''")
    case True
    assume "pi_real_end w1 = Some e"
    with fold_row_pi(1) [OF True s] True show ?thesis
      by (cases "end_date r"; cases "pi_real_end w")
        (auto simp: widen_max_def max_def split: if_splits)
  next
    case False
    assume "pi_real_end w1 = Some e"
    with fold_row_not_pi [OF s False] show ?thesis by simp
  qed
  from Cons.IH [OF f Cons.prems(2)] step show ?case by auto
qed

lemma fold_rows_pi_real_end_mono:
  "fold_rows x y z w rs = Inr w' \<Longrightarrow> pi_real_end w = Some e0 \<Longrightarrow>
   \<exists>e. pi_real_end w' = Some e \<and> e0 \<le> e"
proof (induction rs arbitrary: w e0)
  case Nil
  then show ?case by simp
next
  case (Cons r rs)
  from Cons.prems obtain w1 where
    s: "fold_row x y z w r = Inr w1" and f: "fold_rows x y z w1 rs = Inr w'"
    by (auto split: sum.splits)
  have "\<exists>e1. pi_real_end w1 = Some e1 \<and> e0 \<le> e1"
  proof (cases "normalize (entry_type r) = ''price increase''")
    case True
    from fold_row_pi(1) [OF True s] Cons.prems(2) show ?thesis
      by (cases "end_date r") (simp_all add: widen_max_def)
  next
    case False
    with fold_row_not_pi [OF s] Cons.prems(2) show ?thesis by simp
  qed
  then obtain e1 where e1: "pi_real_end w1 = Some e1" "e0 \<le> e1" by blast
  from Cons.IH [OF f e1(1)] e1(2) show ?case by fastforce
qed

lemma fold_rows_pi_real_end_upper:
  "fold_rows x y z w rs = Inr w' \<Longrightarrow> r \<in> set rs \<Longrightarrow>
   normalize (entry_type r) = ''price increase'' \<Longrightarrow> end_date r = Some d \<Longrightarrow>
   \<exists>e. pi_real_end w' = Some e \<and> d \<le> e"
proof (induction rs arbitrary: w)
  case Nil
  then show ?case by simp
next
  case (Cons q rs)
  from Cons.prems(1) obtain w1 where
    s: "fold_row x y z w q = Inr w1" and f: "fold_rows x y z w1 rs = Inr w'"
    by (auto split: sum.splits)
  show ?case
  proof (cases "r = q")
    case True
    from fold_row_pi(1) [OF _ s] Cons.prems(3,4) True widen_max_Some [of "pi_real_end w" d]
    obtain e1 where e1: "pi_real_end w1 = Some e1" "d \<le> e1"
      by auto
    from fold_rows_pi_real_end_mono [OF f e1(1)] e1(2) show ?thesis by fastforce
  next
    case False
    with Cons.prems(2) have "r \<in> set rs" by simp
    from Cons.IH [OF f this Cons.prems(3,4)] show ?thesis .
  qed
qed

text \<open>
  C5. In every plan the aggregation produces, the Price Increase real end is null exactly
  when no Price Increase row of that vendor carries an end date, and when it is present
  it is the end date of one of that vendor's Price Increase rows, the latest of them: it
  is never synthesized. The display end of such a plan is always a concrete date: each
  Price Increase row of the vendor has the display window
  \<open>(start - y, end if present else start + z)\<close>, and the plan's display end is at least
  that row's display end.
\<close>

theorem pi_real_end_never_synthesized:
  assumes "aggregate_by_vendor rows x y z = Inr plans" and "w \<in> set plans"
  shows "(pi_real_end w = None \<longleftrightarrow>
            (\<forall>r \<in> set rows. vendor_r r = vendor w \<and> normalize (entry_type r) = ''price increase''
               \<longrightarrow> end_date r = None))
         \<and> (\<forall>r \<in> set rows. vendor_r r = vendor w \<and> normalize (entry_type r) = ''price increase'' \<longrightarrow>
              compute_display_window r x y z =
                Inr (start_date r - y, (case end_date r of Some e \<Rightarrow> e | None \<Rightarrow> start_date r + z)) \<and>
              (\<exists>e. pi_display_end w = Some e \<and>
                   (case end_date r of Some d \<Rightarrow> d | None \<Rightarrow> start_date r + z) \<le> e))
         \<and> (\<forall>e. pi_real_end w = Some e \<longrightarrow>
              (\<exists>r \<in> set rows. vendor_r r = vendor w \<and>
                 normalize (entry_type r) = ''price increase'' \<and> end_date r = Some e) \<and>
              (\<forall>r \<in> set rows. vendor_r r = vendor w \<and>
                 normalize (entry_type r) = ''price increase'' \<longrightarrow>
                 (\<forall>d. end_date r = Some d \<longrightarrow> d \<le> e)))"
proof -
  let ?rs = "filter (\<lambda>r. vendor_r r = vendor w) rows"
  from aggregate_plans(3) [OF assms]
  have f: "fold_rows x y z (new_plan (vendor w)) ?rs = Inr w" .
  from fold_rows_pi_real_end [OF f]
  have a: "pi_real_end w = None \<longleftrightarrow>
            (\<forall>r \<in> set rows. vendor_r r = vendor w \<and> normalize (entry_type r) = ''price increase''
               \<longrightarrow> end_date r = None)"
    by (auto simp: new_plan_def)
  have b: "compute_display_window r x y z =
                Inr (start_date r - y, (case end_date r of Some e \<Rightarrow> e | None \<Rightarrow> start_date r + z)) \<and>
              (\<exists>e. pi_display_end w = Some e \<and>
                   (case end_date r of Some d \<Rightarrow> d | None \<Rightarrow> start_date r + z) \<le> e)"
    if r: "r \<in> set rows" "vendor_r r = vendor w" "normalize (entry_type r) = ''price increase''" for r
  proof -
    from r have mem: "r \<in> set ?rs" by simp
    from fold_rows_window [OF f mem] obtain d where d: "compute_display_window r x y z = Inr d"
      by blast
    from window_pi [OF r(3) d] d fold_rows_pi_display_end [OF f mem r(3)] show ?thesis by simp
  qed
  have c1: "\<exists>r \<in> set rows. vendor_r r = vendor w \<and>
                 normalize (entry_type r) = ''price increase'' \<and> end_date r = Some e"
    if "pi_real_end w = Some e" for e
    using fold_rows_pi_real_end_value [OF f that] by (auto simp: new_plan_def)
  have c2: "d \<le> e"
    if e: "pi_real_end w = Some e" and r: "r \<in> set rows" "vendor_r r = vendor w"
      "normalize (entry_type r) = ''price increase''" "end_date r = Some d" for e r d
  proof -
    from r have mem: "r \<in> set ?rs" by simp
    from fold_rows_pi_real_end_upper [OF f mem r(3,4)] e show ?thesis by simp
  qed
  from a b c1 c2 show ?thesis by blast
qed

theorem pi_real_end_never_synthesized_witness:
  "aggregate_by_vendor [row_A, row_B] 5 15 5 = Inr [plan_AB] \<and>
   vendor_r row_B = vendor plan_AB \<and>
   normalize (entry_type row_B) = ''price increase'' \<and>
   end_date row_B = None \<and>
   pi_real_end plan_AB = None \<and>
   compute_display_window row_B 5 15 5 = Inr (739032, 739052) \<and>
   pi_display_end plan_AB = Some 739052 \<and>
   aggregate_by_vendor [row_B, row_B_dated] 5 15 5 = Inr [plan_B_mixed] \<and>
   pi_real_end plan_B_mixed = Some 739037 \<and>
   (\<exists>r \<in> set [row_B, row_B_dated]. vendor_r r = vendor plan_B_mixed \<and>
      normalize (entry_type r) = ''price increase'' \<and> end_date r = Some 739037) \<and>
   end_date row_B_dated = Some 739037 \<and>
   pi_display_end plan_B_mixed = Some 739052"
proof -
  have h: "aggregate_by_vendor [row_A, row_B] 5 15 5 = Inr [plan_AB]" by code_simp
  have m: "plan_AB \<in> set [plan_AB]" by simp
  have v: "vendor_r row_B = vendor plan_AB" by (simp add: row_B_def plan_AB_def)
  have n: "normalize (entry_type row_B) = ''price increase''" by code_simp
  have na: "normalize (entry_type row_A) \<noteq> ''price increase''" by code_simp
  have e: "end_date row_B = None" by (simp add: row_B_def)
  note t = pi_real_end_never_synthesized [OF h m]
  from na e have "\<forall>r \<in> set [row_A, row_B].
      vendor_r r = vendor plan_AB \<and> normalize (entry_type r) = ''price increase''
        \<longrightarrow> end_date r = None" by simp
  with t [THEN conjunct1] have re: "pi_real_end plan_AB = None" by (rule iffD2)
  have "row_B \<in> set [row_A, row_B]" by simp
  from t [THEN conjunct2, THEN conjunct1, THEN bspec, OF this, THEN mp, OF conjI [OF v n]] e
  have cw: "compute_display_window row_B 5 15 5 = Inr (739032, 739052)"
    by (simp add: row_B_def)
  have de: "pi_display_end plan_AB = Some 739052" by (simp add: plan_AB_def)
  have h2: "aggregate_by_vendor [row_B, row_B_dated] 5 15 5 = Inr [plan_B_mixed]" by code_simp
  have m2: "plan_B_mixed \<in> set [plan_B_mixed]" by simp
  have re2: "pi_real_end plan_B_mixed = Some 739037" by (simp add: plan_B_mixed_def)
  note t2 = pi_real_end_never_synthesized [OF h2 m2]
  from t2 [THEN conjunct2, THEN conjunct2, THEN spec, THEN mp, OF re2, THEN conjunct1]
  have ex: "\<exists>r \<in> set [row_B, row_B_dated]. vendor_r r = vendor plan_B_mixed \<and>
      normalize (entry_type r) = ''price increase'' \<and> end_date r = Some 739037" .
  have ed: "end_date row_B_dated = Some 739037" by (simp add: row_B_dated_def)
  have de2: "pi_display_end plan_B_mixed = Some 739052" by (simp add: plan_B_mixed_def)
  from h v n e re cw de h2 re2 ex ed de2 show ?thesis by (intro conjI)
qed

section \<open>Order of the rows of one vendor\<close>

lemma window_error: "compute_display_window r x y z = Inl e \<Longrightarrow> e = OverflowError"
  by (auto simp: compute_display_window_def date_minus_days_def date_plus_days_def timedelta_def
      date_shift_def Let_def split: option.splits if_splits sum.splits)

lemma fold_row_merge:
  "fold_row x y z w r =
     (case compute_display_window r x y z of
        Inl e \<Rightarrow> Inl e
      | Inr d \<Rightarrow> Inr (merge_windows r d (add_collection_id w r)))"
  by (auto simp: fold_row_def merge_windows_def Let_def split: sum.splits prod.splits)

lemma without_ids_add: "without_ids (add_collection_id w r) = without_ids w"
  by (auto simp: without_ids_def add_collection_id_def split: option.splits)

lemma without_ids_merge: "without_ids (merge_windows r d w) = merge_windows r d (without_ids w)"
  by (auto simp: without_ids_def merge_windows_def split: option.splits)

lemma widen_min_commute: "widen_min (widen_min c a) b = widen_min (widen_min c b) a"
  by (cases c) (auto simp: widen_min_def)

lemma widen_max_commute: "widen_max (widen_max c a) b = widen_max (widen_max c b) a"
  by (cases c) (auto simp: widen_max_def)

lemma pi_real_end_commute:
  "(case e1 of None \<Rightarrow> (case e2 of None \<Rightarrow> c | Some e \<Rightarrow> widen_max c e)
      | Some e \<Rightarrow> widen_max (case e2 of None \<Rightarrow> c | Some e \<Rightarrow> widen_max c e) e) =
   (case e2 of None \<Rightarrow> (case e1 of None \<Rightarrow> c | Some e \<Rightarrow> widen_max c e)
      | Some e \<Rightarrow> widen_max (case e1 of None \<Rightarrow> c | Some e \<Rightarrow> widen_max c e) e)"
  by (cases e1; cases e2) (simp_all add: widen_max_commute)


lemma merge_windows_commute:
  "merge_windows r d (merge_windows r' d' w) = merge_windows r' d' (merge_windows r d w)"
proof (rule VendorPlan.equality)
  show "sale_display_start (merge_windows r d (merge_windows r' d' w)) =
        sale_display_start (merge_windows r' d' (merge_windows r d w))"
    by (simp add: merge_windows_def widen_min_commute [of _ "fst d'" "fst d"])
  show "sale_display_end (merge_windows r d (merge_windows r' d' w)) =
        sale_display_end (merge_windows r' d' (merge_windows r d w))"
    by (simp add: merge_windows_def widen_max_commute [of _ "snd d'" "snd d"])
  show "pi_display_start (merge_windows r d (merge_windows r' d' w)) =
        pi_display_start (merge_windows r' d' (merge_windows r d w))"
    by (simp add: merge_windows_def widen_min_commute [of _ "fst d'" "fst d"])
  show "pi_display_end (merge_windows r d (merge_windows r' d' w)) =
        pi_display_end (merge_windows r' d' (merge_windows r d w))"
    by (simp add: merge_windows_def widen_max_commute [of _ "snd d'" "snd d"])
  show "sale_real_start (merge_windows r d (merge_windows r' d' w)) =
        sale_real_start (merge_windows r' d' (merge_windows r d w))"
    by (simp add: merge_windows_def widen_min_commute [of _ "start_date r'" "start_date r"])
  show "sale_real_end (merge_windows r d (merge_windows r' d' w)) =
        sale_real_end (merge_windows r' d' (merge_windows r d w))"
    by (simp add: merge_windows_def widen_max_commute [of _ "end_or_start r'" "end_or_start r"])
  show "pi_real_start (merge_windows r d (merge_windows r' d' w)) =
        pi_real_start (merge_windows r' d' (merge_windows r d w))"
    by (simp add: merge_windows_def widen_min_commute [of _ "start_date r'" "start_date r"])
  show "pi_real_end (merge_windows r d (merge_windows r' d' w)) =
        pi_real_end (merge_windows r' d' (merge_windows r d w))"
    by (cases "end_date r"; cases "end_date r'")
      (simp_all add: merge_windows_def widen_max_commute)
qed (simp_all add: merge_windows_def)


lemma fold_row_on_simps:
  "fold_row_on x y z r (Inl e) = Inl e"
  "fold_row_on x y z r (Inr w) = fold_row x y z w r"
  by (simp_all add: fold_row_on_def)

lemma fold_on_Inl: "fold (fold_row_on x y z) rs (Inl e) = Inl e"
  by (induction rs) (simp_all add: fold_row_on_simps)

lemma fold_rows_fold: "fold_rows x y z w rs = fold (fold_row_on x y z) rs (Inr w)"
proof (induction rs arbitrary: w)
  case Nil
  then show ?case by simp
next
  case (Cons r rs)
  then show ?case
    by (cases "fold_row x y z w r") (simp_all add: fold_row_on_simps fold_on_Inl)
qed

lemma fold_row_on_without_ids:
  "map_sum id without_ids (fold_row_on x y z r s) = merge_row_on x y z r (map_sum id without_ids s)"
proof (cases s)
  case (Inl e)
  then show ?thesis by (simp add: fold_row_on_def merge_row_on_def)
next
  case (Inr w)
  then show ?thesis
    by (cases "compute_display_window r x y z")
      (simp_all add: fold_row_on_def merge_row_on_def fold_row_merge without_ids_merge
        without_ids_add)
qed

lemma fold_without_ids:
  "map_sum id without_ids (fold (fold_row_on x y z) rs s) =
   fold (merge_row_on x y z) rs (map_sum id without_ids s)"
  by (induction rs arbitrary: s) (simp_all add: fold_row_on_without_ids)

lemma merge_row_on_commute:
  "merge_row_on x y z r \<circ> merge_row_on x y z r' = merge_row_on x y z r' \<circ> merge_row_on x y z r"
proof
  fix s
  show "(merge_row_on x y z r \<circ> merge_row_on x y z r') s =
        (merge_row_on x y z r' \<circ> merge_row_on x y z r) s"
  proof (cases s)
    case (Inl e)
    then show ?thesis by (simp add: merge_row_on_def)
  next
    case (Inr w)
    show ?thesis
    proof (cases "compute_display_window r x y z")
      case a: (Inl e)
      show ?thesis
      proof (cases "compute_display_window r' x y z")
        case b: (Inl e')
        from window_error [OF a] window_error [OF b] a b Inr show ?thesis
          by (simp add: merge_row_on_def)
      next
        case b: (Inr d')
        from a b Inr show ?thesis by (simp add: merge_row_on_def)
      qed
    next
      case a: (Inr d)
      show ?thesis
      proof (cases "compute_display_window r' x y z")
        case b: (Inl e')
        from a b Inr show ?thesis by (simp add: merge_row_on_def)
      next
        case b: (Inr d')
        from a b Inr show ?thesis
          by (simp add: merge_row_on_def merge_windows_commute [of r d r' d' w])
      qed
    qed
  qed
qed

lemma fold_rows_permuted:
  assumes "mset rs' = mset rs"
  shows "map_sum id without_ids (fold_rows x y z w rs') =
         map_sum id without_ids (fold_rows x y z w rs)"
proof -
  have "fold (merge_row_on x y z) rs' = fold (merge_row_on x y z) rs"
    by (rule fold_multiset_equiv) (simp_all add: merge_row_on_commute assms)
  then show ?thesis by (simp add: fold_rows_fold fold_without_ids)
qed

lemma merge_windows_ids: "collection_ids (merge_windows r d w) = collection_ids w"
  by (simp add: merge_windows_def)

lemma fold_rows_ids:
  "fold_rows x y z w rs = Inr w' \<Longrightarrow>
   set (collection_ids w') =
     set (collection_ids w) \<union> {c. c \<noteq> [] \<and> (\<exists>r \<in> set rs. collection_id r = Some c)}"
proof (induction rs arbitrary: w)
  case Nil
  then show ?case by simp
next
  case (Cons r rs)
  from Cons.prems obtain w1 where
    s: "fold_row x y z w r = Inr w1" and f: "fold_rows x y z w1 rs = Inr w'"
    by (auto split: sum.splits)
  from s have "collection_ids w1 = collection_ids (add_collection_id w r)"
    by (auto simp: fold_row_merge merge_windows_ids split: sum.splits)
  then have "set (collection_ids w1) =
      set (collection_ids w) \<union> {c. c \<noteq> [] \<and> collection_id r = Some c}"
    by (auto simp: add_collection_id_def split: option.splits)
  with Cons.IH [OF f] show ?case by auto
qed

lemma without_ids_same_plan:
  "without_ids w = without_ids w' \<Longrightarrow> set (collection_ids w) = set (collection_ids w') \<Longrightarrow>
   same_plan w w'"
proof -
  assume a: "without_ids w = without_ids w'" and b: "set (collection_ids w) = set (collection_ids w')"
  from a have "vendor (without_ids w) = vendor (without_ids w')"
    "sale_display_start (without_ids w) = sale_display_start (without_ids w')"
    "sale_display_end (without_ids w) = sale_display_end (without_ids w')"
    "pi_display_start (without_ids w) = pi_display_start (without_ids w')"
    "pi_display_end (without_ids w) = pi_display_end (without_ids w')"
    "sale_real_start (without_ids w) = sale_real_start (without_ids w')"
    "sale_real_end (without_ids w) = sale_real_end (without_ids w')"
    "pi_real_start (without_ids w) = pi_real_start (without_ids w')"
    "pi_real_end (without_ids w) = pi_real_end (without_ids w')"
    by simp_all
  with b show ?thesis by (simp add: same_plan_def without_ids_def)
qed


lemma aggregate_loop_error:
  "aggregate_loop x y z bv rows = Inl e \<Longrightarrow> e = OverflowError"
proof (induction rows arbitrary: bv)
  case Nil
  then show ?case by simp
next
  case (Cons r rs)
  show ?case
  proof (cases "fold_row x y z (get_or_new bv (vendor_r r)) r")
    case (Inl e')
    with Cons.prems have "e' = e" by (simp add: Let_def)
    with Inl have "compute_display_window r x y z = Inl e" by (simp add: fold_row_error)
    then show ?thesis by (rule window_error)
  next
    case (Inr w)
    with Cons.prems have "aggregate_loop x y z (AList.update (vendor_r r) w bv) rs = Inl e"
      by (simp add: Let_def)
    then show ?thesis by (rule Cons.IH)
  qed
qed

lemma aggregate_error: "aggregate_by_vendor rows x y z = Inl e \<Longrightarrow> e = OverflowError"
  by (auto simp: aggregate_by_vendor_def split: sum.splits dest: aggregate_loop_error)

lemma aggregate_Inr_iff:
  "(\<exists>plans. aggregate_by_vendor rows x y z = Inr plans) \<longleftrightarrow>
   (\<forall>r \<in> set rows. \<exists>d. compute_display_window r x y z = Inr d)"
proof
  assume "\<exists>plans. aggregate_by_vendor rows x y z = Inr plans"
  then obtain plans where p: "aggregate_by_vendor rows x y z = Inr plans" ..
  show "\<forall>r \<in> set rows. \<exists>d. compute_display_window r x y z = Inr d"
  proof
    fix r assume r: "r \<in> set rows"
    with aggregate_plans(2) [OF p] obtain w where w: "w \<in> set plans" "vendor w = vendor_r r"
      by (metis (no_types, lifting) image_iff list.set_map)
    from aggregate_plans(3) [OF p w(1)]
    have f: "fold_rows x y z (new_plan (vendor w)) (filter (\<lambda>q. vendor_r q = vendor w) rows) = Inr w" .
    from r w(2) have "r \<in> set (filter (\<lambda>q. vendor_r q = vendor w) rows)" by simp
    from fold_rows_window [OF f this] show "\<exists>d. compute_display_window r x y z = Inr d" .
  qed
next
  assume "\<forall>r \<in> set rows. \<exists>d. compute_display_window r x y z = Inr d"
  from aggregate_loop_total [OF this, of "[]"] show "\<exists>plans. aggregate_by_vendor rows x y z = Inr plans"
    by (auto simp: aggregate_by_vendor_def)
qed

lemma distinct_set_singleton: "distinct xs \<Longrightarrow> set xs = {v} \<Longrightarrow> xs = [v]"
proof (cases xs)
  case Nil
  assume "set xs = {v}"
  with Nil show ?thesis by simp
next
  case (Cons a ys)
  assume d: "distinct xs" and s: "set xs = {v}"
  from Cons s have a: "a = v" by auto
  from Cons d a have "v \<notin> set ys" by simp
  moreover from Cons s have "set ys \<subseteq> {v}" by auto
  ultimately have "ys = []" by (cases ys) auto
  with Cons a show ?thesis by simp
qed

lemma aggregate_one_vendor:
  assumes one: "\<forall>r \<in> set rows. vendor_r r = v"
    and agg: "aggregate_by_vendor rows x y z = Inr plans"
  shows "(rows = [] \<and> plans = []) \<or>
         (rows \<noteq> [] \<and> (\<exists>w. plans = [w] \<and> fold_rows x y z (new_plan v) rows = Inr w))"
proof (cases "rows = []")
  case True
  with aggregate_plans(2) [OF agg] show ?thesis by simp
next
  case False
  with one have "vendor_r ` set rows = {v}" by (cases rows) auto
  with aggregate_plans(1,2) [OF agg] have "map vendor plans = [v]"
    by (simp add: distinct_set_singleton)
  then obtain w where w: "plans = [w]" "vendor w = v" by (cases plans) auto
  from one have "filter (\<lambda>r. vendor_r r = v) rows = rows" by (simp add: filter_id_conv)
  with aggregate_plans(3) [OF agg, of w] w
  have "fold_rows x y z (new_plan v) rows = Inr w" by simp
  with w False show ?thesis by simp
qed

text \<open>
  C3. For rows that all belong to one vendor, the aggregation of any permutation of the
  list gives the same result: either both raise the same error, or both return plans that
  agree on the vendor, on all eight display and real window bounds and on the set of
  collection ids. (The list \<open>collection_ids\<close> keeps first-seen order, which a permutation
  may change; its set does not change.)
\<close>

theorem aggregation_order_independent:
  assumes one: "\<forall>r \<in> set rows. vendor_r r = v" and perm: "mset rows' = mset rows"
  shows "rel_sum (=) (list_all2 same_plan)
           (aggregate_by_vendor rows x y z) (aggregate_by_vendor rows' x y z)"
proof -
  from perm have sets: "set rows' = set rows" by (rule mset_eq_setD)
  with one have one': "\<forall>r \<in> set rows'. vendor_r r = v" by simp
  show ?thesis
  proof (cases "aggregate_by_vendor rows x y z")
    case (Inl e)
    have "\<not> (\<exists>plans. aggregate_by_vendor rows' x y z = Inr plans)"
    proof
      assume "\<exists>plans. aggregate_by_vendor rows' x y z = Inr plans"
      then have "\<exists>plans. aggregate_by_vendor rows x y z = Inr plans"
        by (simp add: aggregate_Inr_iff sets)
      with Inl show False by simp
    qed
    then obtain e' where e': "aggregate_by_vendor rows' x y z = Inl e'"
      by (cases "aggregate_by_vendor rows' x y z") auto
    from aggregate_error [OF Inl] aggregate_error [OF e'] Inl e' show ?thesis by simp
  next
    case (Inr plans)
    then have "\<exists>plans. aggregate_by_vendor rows' x y z = Inr plans"
      using aggregate_Inr_iff [of rows x y z] aggregate_Inr_iff [of rows' x y z] sets by auto
    then obtain plans' where p': "aggregate_by_vendor rows' x y z = Inr plans'" ..
    show ?thesis
    proof (cases "rows = []")
      case True
      with perm have "rows' = []" by simp
      with True aggregate_one_vendor [OF one Inr] aggregate_one_vendor [OF one' p'] Inr p'
      show ?thesis by simp
    next
      case False
      with perm have ne': "rows' \<noteq> []" by auto
      from False aggregate_one_vendor [OF one Inr] obtain w where
        w: "plans = [w]" "fold_rows x y z (new_plan v) rows = Inr w" by auto
      from ne' aggregate_one_vendor [OF one' p'] obtain w' where
        w': "plans' = [w']" "fold_rows x y z (new_plan v) rows' = Inr w'" by auto
      from fold_rows_permuted [OF perm, of x y z "new_plan v"] w(2) w'(2)
      have a: "without_ids w = without_ids w'" by simp
      from fold_rows_ids [OF w(2)] fold_rows_ids [OF w'(2)] sets
      have b: "set (collection_ids w) = set (collection_ids w')" by simp
      from without_ids_same_plan [OF a b] Inr p' w(1) w'(1) show ?thesis by simp
    qed
  qed
qed

theorem aggregation_order_independent_witness:
  "vendor_r row_A = ''Acme'' \<and> vendor_r row_B = ''Acme'' \<and>
   mset [row_B, row_A] = mset [row_A, row_B] \<and>
   aggregate_by_vendor [row_A, row_B] 5 15 5 = Inr [plan_AB] \<and>
   aggregate_by_vendor [row_B, row_A] 5 15 5 = Inr [plan_BA] \<and>
   same_plan plan_AB plan_BA \<and>
   collection_ids plan_AB \<noteq> collection_ids plan_BA"
proof -
  have va: "vendor_r row_A = ''Acme''" and vb: "vendor_r row_B = ''Acme''"
    by (simp_all add: row_A_def row_B_def)
  then have one: "\<forall>r \<in> set [row_A, row_B]. vendor_r r = ''Acme''" by simp
  have perm: "mset [row_B, row_A] = mset [row_A, row_B]" by simp
  have h1: "aggregate_by_vendor [row_A, row_B] 5 15 5 = Inr [plan_AB]" by code_simp
  have h2: "aggregate_by_vendor [row_B, row_A] 5 15 5 = Inr [plan_BA]" by code_simp
  from aggregation_order_independent [OF one perm, of 5 15 5] h1 h2
  have s: "same_plan plan_AB plan_BA" by simp
  have d: "collection_ids plan_AB \<noteq> collection_ids plan_BA"
    by (simp add: plan_AB_def plan_BA_def)
  from va vb perm h1 h2 s d show ?thesis by (intro conjI)
qed

section \<open>Retries of \<open>graphql\<close>\<close>

text \<open>
  C1 says that a GraphQL-level error payload makes the call raise at once, without another
  attempt. In the code the \<open>raise\<close> sits inside the \<open>try\<close> whose \<open>except Exception\<close> handler
  records the error and goes on with the next attempt. With \<open>retries = 4\<close>: when the first
  answer carries an \<open>errors\<close> payload and the second is clean, the call makes two requests
  and returns the second answer's data; when every answer carries an \<open>errors\<close> payload, the
  call makes all four requests before it fails, as it does for transport failures.
\<close>

theorem graphql_errors_are_retried:
  "graphql post_errors_then_ok 4 = (Inr ''second'', 2) \<and>
   graphql post_always_errors 4 =
     (Inl (Shopify_GraphQL_failed_after_retries (Some GraphQL_errors)), 4) \<and>
   graphql post_always_raises 4 =
     (Inl (Shopify_GraphQL_failed_after_retries (Some Request_exception)), 4)"
  by code_simp

section \<open>What the count primitives return\<close>





section \<open>Dry-run estimates and the product-count cache\<close>













end
